theory Spec2Isabelle
  imports Main "HOL-Library.AList"
begin

section \<open>The httpskeleton server: request logging, status recorder, recorder pool\<close>

text \<open>
  A shallow embedding of \<^verbatim>\<open>main.go\<close>. Go's mutable maps and the pooled
  \<^verbatim>\<open>*logWriter\<close> objects are references, so they live in an explicit store
  and are named by their addresses. A panic is a result value that carries the state at
  the moment of the panic. The log sink, the response sinks, the clock and the random
  source are fields of the state.
\<close>

subsection \<open>Values, maps, log text\<close>

text \<open>
  The values a \<^verbatim>\<open>map[string]interface{}\<close> holds here: integers, strings, and
  \<open>VUnsupported\<close> for any Go value that \<^verbatim>\<open>json.Marshal\<close> rejects (a channel,
  a function, a complex number, a NaN).
\<close>

datatype val = VInt int | VStr string | VUnsupported

type_synonym gomap = "(string \<times> val) list"

text \<open>
  A Go string that reaches the log sink is either literal text or the JSON rendering of a
  map. The rendering is kept symbolic, as the map that was rendered, so that the fields of
  an emitted line can be read back.
\<close>

datatype gostring = Raw string | Json gomap

datatype 'a outcome = Ok 'a | Panicking string

type_synonym map_ptr = nat
type_synonym lw_ptr = nat
type_synonym sink_id = nat

text \<open>
  \<^verbatim>\<open>*http.Request\<close>: the fields the code reads, and the value its context holds
  under the key \<^verbatim>\<open>"log"\<close> when that value is a \<^verbatim>\<open>map[string]interface{}\<close>
  (\<open>None\<close>: no such value, or one of another type). A nil request pointer is
  \<open>None :: request option\<close>.
\<close>

record request =
  ctx_log :: "map_ptr option"
  remoteAddr :: string
  reqMethod :: string
  url :: string
  contentLength :: int

text \<open>\<^verbatim>\<open>type logWriter struct\<close>; the embedded \<^verbatim>\<open>http.ResponseWriter\<close> is nil
  (\<open>None\<close>) in a value made by \<^verbatim>\<open>&logWriter{}\<close>.\<close>

record logWriter =
  code :: int
  headerWritten :: bool
  responseWriter :: "sink_id option"

text \<open>What the underlying response writer is asked to do, in order.\<close>

datatype sink_call = SinkWriteHeader int | SinkWrite "nat list"

record state =
  maps :: "map_ptr \<Rightarrow> gomap"
  maps_next :: map_ptr
  lws :: "lw_ptr \<Rightarrow> logWriter"
  lws_next :: lw_ptr
  sinks :: "sink_id \<Rightarrow> sink_call list"
  log_out :: "gostring list"
  now :: int
  rnd :: "nat \<Rightarrow> nat"
  rnd_pos :: nat
  stack :: string
  ranOnce :: bool
  writers_New :: bool
  writers_items :: "lw_ptr list"

type_synonym handler = "nat \<Rightarrow> request \<Rightarrow> state \<Rightarrow> unit outcome \<times> state"

subsection \<open>Library calls\<close>

definition nil_deref :: string where
  "nil_deref = ''runtime error: invalid memory address or nil pointer dereference''"

text \<open>\<^verbatim>\<open>make(map[string]interface{})\<close>\<close>

definition make_map :: "state \<Rightarrow> map_ptr \<times> state" where
  "make_map s =
     (maps_next s, s\<lparr>maps := (maps s)(maps_next s := []), maps_next := Suc (maps_next s)\<rparr>)"

text \<open>\<^verbatim>\<open>data[key] = value\<close>\<close>

definition map_set :: "map_ptr \<Rightarrow> string \<Rightarrow> val \<Rightarrow> state \<Rightarrow> state" where
  "map_set a k v s = s\<lparr>maps := (maps s)(a := AList.update k v (maps s a))\<rparr>"

text \<open>\<^verbatim>\<open>log.Println(t)\<close>\<close>

definition log_Println :: "gostring \<Rightarrow> state \<Rightarrow> state" where
  "log_Println t s = s\<lparr>log_out := log_out s @ [t]\<rparr>"

text \<open>\<^verbatim>\<open>json.Marshal(l)\<close>: an error and no bytes when a value cannot be encoded.\<close>

definition json_Marshal :: "gomap \<Rightarrow> string + gostring" where
  "json_Marshal l =
     (if list_ex (\<lambda>kv. snd kv = VUnsupported) l then Inl ''json: unsupported type''
      else Inr (Json l))"

text \<open>
  The clock counts nanoseconds since the Unix epoch. \<^verbatim>\<open>Time.Unix()\<close> is the whole
  seconds; \<^verbatim>\<open>time.Since(start).Nanoseconds()\<close> is the difference, which Go
  saturates at the bounds of \<^verbatim>\<open>int64\<close>.
\<close>

definition time_Unix :: "int \<Rightarrow> int" where
  "time_Unix t = t div 1000000000"

definition maxDuration :: int where
  "maxDuration = 2 ^ 63 - 1"

definition minDuration :: int where
  "minDuration = - (2 ^ 63)"

definition time_Since :: "int \<Rightarrow> state \<Rightarrow> int" where
  "time_Since start s =
     (let d = now s - start in
      if d > maxDuration then maxDuration else if d < minDuration then minDuration else d)"

text \<open>Go's integer division truncates toward zero.\<close>

definition go_div :: "int \<Rightarrow> int \<Rightarrow> int" where
  "go_div a b = sgn a * sgn b * (\<bar>a\<bar> div \<bar>b\<bar>)"

text \<open>\<^verbatim>\<open>rand.Int63n(n)\<close> for a positive \<open>n\<close>: the next draw of the process-wide
  source, brought into \<open>[0, n)\<close>.\<close>

definition rand_Int63n :: "nat \<Rightarrow> state \<Rightarrow> int \<times> state" where
  "rand_Int63n n s = (int (rnd s (rnd_pos s) mod n), s\<lparr>rnd_pos := Suc (rnd_pos s)\<rparr>)"

text \<open>\<^verbatim>\<open>fmt.Sprintf("%08x", v)\<close>: lowercase hexadecimal, padded with zeros to width
  eight; a minus sign counts in the width.\<close>

definition hex_digit :: "nat \<Rightarrow> char" where
  "hex_digit d = ''0123456789abcdef'' ! d"

fun hex :: "nat \<Rightarrow> string" where
  "hex n = (if n < 16 then [hex_digit n] else hex (n div 16) @ [hex_digit (n mod 16)])"

declare hex.simps [simp del]

definition pad0 :: "nat \<Rightarrow> string \<Rightarrow> string" where
  "pad0 w ds = replicate (w - length ds) CHR ''0'' @ ds"

definition fmt_Sprintf_08x :: "int \<Rightarrow> string" where
  "fmt_Sprintf_08x v =
     (if v < 0 then CHR ''-'' # pad0 7 (hex (nat (- v))) else pad0 8 (hex (nat v)))"

text \<open>\<^verbatim>\<open>sync.Pool\<close>: \<^verbatim>\<open>Get\<close> hands out a pooled item, else calls
  \<^verbatim>\<open>New\<close>, else returns nil; \<^verbatim>\<open>Put\<close> adds an item.\<close>

definition writers_Get :: "state \<Rightarrow> lw_ptr option \<times> state" where
  "writers_Get s =
     (case writers_items s of
        a # as \<Rightarrow> (Some a, s\<lparr>writers_items := as\<rparr>)
      | [] \<Rightarrow>
          if writers_New s
          then (Some (lws_next s),
                s\<lparr>lws := (lws s)(lws_next s :=
                       \<lparr>code = 0, headerWritten = False, responseWriter = None\<rparr>),
                  lws_next := Suc (lws_next s)\<rparr>)
          else (None, s))"

definition writers_Put :: "lw_ptr \<Rightarrow> state \<Rightarrow> state" where
  "writers_Put a s = s\<lparr>writers_items := a # writers_items s\<rparr>"

text \<open>\<^verbatim>\<open>fmt.Sprintf("%v", n)\<close> for an integer: decimal digits after the sign.\<close>

definition dec_digit :: "nat \<Rightarrow> char" where
  "dec_digit d = ''0123456789'' ! d"

fun dec :: "nat \<Rightarrow> string" where
  "dec n = (if n < 10 then [dec_digit n] else dec (n div 10) @ [dec_digit (n mod 10)])"

declare dec.simps [simp del]

definition fmt_Sprintf_v :: "int \<Rightarrow> string" where
  "fmt_Sprintf_v n = (if n < 0 then CHR ''-'' # dec (nat (- n)) else dec (nat n))"

text \<open>
  The underlying \<^verbatim>\<open>http.ResponseWriter\<close> is the response writer of \<^verbatim>\<open>net/http\<close>.
  The state keeps, for each one, the calls made on it, in order. Its header is written by a
  body write, and by a header write with a final status (101, or 200 to 999); an
  informational status (100 to 199 but 101) is sent at once and leaves the header unwritten.
  Once the header is written, \<^verbatim>\<open>WriteHeader\<close> returns without effect on the response,
  whatever the code. Before that, a code outside 100 to 999 makes it panic
  (\<^verbatim>\<open>checkWriteHeaderCode\<close>). What \<^verbatim>\<open>net/http\<close> prints by itself about a repeated
  call is not a line of \<open>log_out\<close>, which holds what the calls of \<^verbatim>\<open>main.go\<close> on
  the logger print.
\<close>

definition sink_do :: "sink_id \<Rightarrow> sink_call \<Rightarrow> state \<Rightarrow> state" where
  "sink_do w c s = s\<lparr>sinks := (sinks s)(w := sinks s w @ [c])\<rparr>"

fun commits :: "sink_call \<Rightarrow> bool" where
  "commits (SinkWriteHeader c) = (c = 101 \<or> (200 \<le> c \<and> c \<le> 999))"
| "commits (SinkWrite buf) = True"

definition wroteHeader :: "sink_call list \<Rightarrow> bool" where
  "wroteHeader calls = list_ex commits calls"

definition sink_rejects :: "bool \<Rightarrow> int \<Rightarrow> bool" where
  "sink_rejects wrote c = (if wrote then False else c < 100 \<or> 999 < c)"

definition invalid_code :: "int \<Rightarrow> string" where
  "invalid_code c = ''invalid WriteHeader code '' @ fmt_Sprintf_v c"

definition sink_WriteHeader :: "sink_id \<Rightarrow> int \<Rightarrow> state \<Rightarrow> unit outcome \<times> state" where
  "sink_WriteHeader w c s =
     (let s1 = sink_do w (SinkWriteHeader c) s in
      if sink_rejects (wroteHeader (sinks s w)) c then (Panicking (invalid_code c), s1)
      else (Ok (), s1))"

definition sink_Write :: "sink_id \<Rightarrow> nat list \<Rightarrow> state \<Rightarrow> nat \<times> state" where
  "sink_Write w buf s = (length buf, sink_do w (SinkWrite buf) s)"

subsection \<open>The log context\<close>

text \<open>\<^verbatim>\<open>r.Context()\<close> reads a field of \<open>r\<close>: on a nil request it is a nil
  pointer dereference.\<close>

definition logDataGet :: "request option \<Rightarrow> state \<Rightarrow> map_ptr outcome \<times> state" where
  "logDataGet r s =
     (case r of
        None \<Rightarrow> (Panicking nil_deref, s)
      | Some req \<Rightarrow>
          (case ctx_log req of
             Some v \<Rightarrow> (Ok v, s)
           | None \<Rightarrow> (let (a, s') = make_map s in (Ok a, s'))))"

text \<open>The last statement of \<^verbatim>\<open>logDataAdd\<close> and of \<^verbatim>\<open>logDataReplace\<close> assigns
  to the parameter \<open>r\<close>: the request built there, \<open>r'\<close>, is not the caller's.\<close>

definition logDataAdd :: "request option \<Rightarrow> string \<Rightarrow> val \<Rightarrow> state \<Rightarrow> unit outcome \<times> state" where
  "logDataAdd r key v s =
     (case r of
        None \<Rightarrow> (Panicking nil_deref, s)
      | Some req \<Rightarrow>
          (let (data, s1) = (case ctx_log req of Some d \<Rightarrow> (d, s) | None \<Rightarrow> make_map s);
               s2 = map_set data key v s1;
               r' = req\<lparr>ctx_log := Some data\<rparr>
           in (Ok (), s2)))"

definition logDataReplace :: "request option \<Rightarrow> map_ptr \<Rightarrow> state \<Rightarrow> unit outcome \<times> state" where
  "logDataReplace r data s =
     (case r of
        None \<Rightarrow> (Panicking nil_deref, s)
      | Some req \<Rightarrow> (let r' = req\<lparr>ctx_log := Some data\<rparr> in (Ok (), s)))"

subsection \<open>Serialising and emitting\<close>

function logAsString :: "map_ptr \<Rightarrow> state \<Rightarrow> gostring outcome \<times> state"
  and logError :: "request option \<Rightarrow> string option \<Rightarrow> string \<Rightarrow> state \<Rightarrow> unit outcome \<times> state"
where
  "logAsString l s =
     (case json_Marshal (maps s l) of
        Inr b \<Rightarrow> (Ok b, s)
      | Inl err \<Rightarrow>
          (case logError None (Some err) ''unable to marshal map[string]interface{}'' s of
             (Panicking p, s') \<Rightarrow> (Panicking p, s')
           | (Ok u, s') \<Rightarrow> (Ok (Raw ''''), s')))"
| "logError r err msg s =
     (case logDataGet r s of
        (Panicking p, s') \<Rightarrow> (Panicking p, s')
      | (Ok logData, s1) \<Rightarrow>
          (let s2 = map_set logData ''event'' (VStr ''error'') s1;
               s3 = map_set logData ''message'' (VStr msg) s2;
               e = (case err of None \<Rightarrow> ''internal error condition'' | Some e \<Rightarrow> e);
               s4 = map_set logData ''error'' (VStr e) s3
           in (case logAsString logData s4 of
                 (Panicking p, s') \<Rightarrow> (Panicking p, s')
               | (Ok t, s5) \<Rightarrow> (Ok (), log_Println t s5))))"
  by pat_completeness auto
termination
  apply (relation "measure (\<lambda>x. case x of
          Inl (l, s) \<Rightarrow> 1
        | Inr (r, err, msg, s) \<Rightarrow> (case r of None \<Rightarrow> 0 | Some q \<Rightarrow> 2))")
    apply simp
   apply simp
  apply (auto simp: logDataGet_def split: option.splits)
  done

declare logAsString.simps [simp del]

declare logError.simps [simp del]

text \<open>\<^verbatim>\<open>logEvent\<close>\<close>

definition logEvent :: "request option \<Rightarrow> string \<Rightarrow> string \<Rightarrow> state \<Rightarrow> unit outcome \<times> state" where
  "logEvent r event msg s =
     (case logDataGet r s of
        (Panicking p, s') \<Rightarrow> (Panicking p, s')
      | (Ok logData, s1) \<Rightarrow>
          (let s2 = map_set logData ''event'' (VStr event) s1;
               s3 = map_set logData ''message'' (VStr msg) s2
           in (case logAsString logData s3 of
                 (Panicking p, s') \<Rightarrow> (Panicking p, s')
               | (Ok t, s4) \<Rightarrow> (Ok (), log_Println t s4))))"

subsection \<open>The status recorder\<close>

definition lw_upd :: "lw_ptr \<Rightarrow> (logWriter \<Rightarrow> logWriter) \<Rightarrow> state \<Rightarrow> state" where
  "lw_upd l f s = s\<lparr>lws := (lws s)(l := f (lws s l))\<rparr>"

text \<open>\<^verbatim>\<open>func (l *logWriter) WriteHeader(code int)\<close>: the flag is cleared, then
  tested; the code is stored when the forwarded call has returned.\<close>

definition logWriter_WriteHeader :: "lw_ptr \<Rightarrow> int \<Rightarrow> state \<Rightarrow> unit outcome \<times> state" where
  "logWriter_WriteHeader l c s =
     (let s1 = lw_upd l (\<lambda>x. x\<lparr>headerWritten := False\<rparr>) s in
      if \<not> headerWritten (lws s1 l) then
        (case responseWriter (lws s1 l) of
           None \<Rightarrow> (Panicking nil_deref, s1)
         | Some w \<Rightarrow>
             (case sink_WriteHeader w c s1 of
                (Panicking p, s2) \<Rightarrow> (Panicking p, s2)
              | (Ok u, s2) \<Rightarrow>
                  (let s3 = lw_upd l (\<lambda>x. x\<lparr>code := c\<rparr>) s2;
                       s4 = lw_upd l (\<lambda>x. x\<lparr>headerWritten := True\<rparr>) s3
                   in (Ok (), s4))))
      else (Ok (), s1))"

text \<open>\<^verbatim>\<open>func (l *logWriter) Write(buf []byte) (int, error)\<close>; the sink takes all
  the bytes.\<close>

definition logWriter_Write :: "lw_ptr \<Rightarrow> nat list \<Rightarrow> state \<Rightarrow> nat outcome \<times> state" where
  "logWriter_Write l buf s =
     (let s1 = lw_upd l (\<lambda>x. x\<lparr>headerWritten := True\<rparr>) s in
      case responseWriter (lws s1 l) of
        None \<Rightarrow> (Panicking nil_deref, s1)
      | Some w \<Rightarrow> (let (n, s2) = sink_Write w buf s1 in (Ok n, s2)))"

definition logWriter_Code :: "lw_ptr \<Rightarrow> state \<Rightarrow> int" where
  "logWriter_Code l s = code (lws s l)"

subsection \<open>Handlers\<close>

text \<open>
  A handler behind the logging middleware is any code that uses the writer and the
  request it is given. It is modelled by the sequence of calls it makes: on the writer,
  on the plain logger (as the three stub handlers do), on the log context functions of
  this file, with time passing in between, and possibly ending in a panic. \<open>Recover\<close>
  is a part of the handler that runs in a function with a deferred \<^verbatim>\<open>recover()\<close>:
  a panic in it ends that part, and the handler goes on after it. The methods
  \<^verbatim>\<open>Hijack\<close>, \<^verbatim>\<open>CloseNotify\<close> and \<^verbatim>\<open>Flush\<close> of the recorder pass through
  to the underlying writer without touching the recorder, and are left out.
\<close>

datatype op =
    WriteHeader int
  | Write "nat list"
  | Println string
  | LogDataAdd string val
  | LogDataReplace gomap
  | LogEvent string string
  | LogError "string option" string
  | Elapse nat
  | Panic string
  | Recover "op list"

fun run_op :: "op \<Rightarrow> handler" and run_ops :: "op list \<Rightarrow> handler" where
  "run_op (WriteHeader c) w r s = logWriter_WriteHeader w c s"
| "run_op (Write buf) w r s =
     (case logWriter_Write w buf s of
        (Panicking p, s') \<Rightarrow> (Panicking p, s')
      | (Ok n, s') \<Rightarrow> (Ok (), s'))"
| "run_op (Println t) w r s = (Ok (), log_Println (Raw t) s)"
| "run_op (LogDataAdd k v) w r s = logDataAdd (Some r) k v s"
| "run_op (LogDataReplace m) w r s =
     (let (a, s1) = make_map s;
          s2 = s1\<lparr>maps := (maps s1)(a := m)\<rparr>
      in logDataReplace (Some r) a s2)"
| "run_op (LogEvent e m) w r s = logEvent (Some r) e m s"
| "run_op (LogError e m) w r s = logError (Some r) e m s"
| "run_op (Elapse d) w r s = (Ok (), s\<lparr>now := now s + int d\<rparr>)"
| "run_op (Panic v) w r s = (Panicking v, s)"
| "run_op (Recover body) w r s =
     (case run_ops body w r s of
        (Panicking p, s') \<Rightarrow> (Ok (), s')
      | (Ok u, s') \<Rightarrow> (Ok (), s'))"
| "run_ops [] w r s = (Ok (), s)"
| "run_ops (x # xs) w r s =
     (case run_op x w r s of
        (Panicking p, s') \<Rightarrow> (Panicking p, s')
      | (Ok u, s') \<Rightarrow> run_ops xs w r s')"

definition indexHandler :: handler where
  "indexHandler w r s = (Ok (), log_Println (Raw ''index handler'') s)"

definition somethingHandler :: handler where
  "somethingHandler w r s = (Ok (), log_Println (Raw ''handle unauth'') s)"

definition anotherHandler :: handler where
  "anotherHandler w r s = (Ok (), log_Println (Raw ''handle auth'') s)"

subsection \<open>Middleware\<close>

definition mwAuth :: "handler \<Rightarrow> handler" where
  "mwAuth h w r s = h w r (log_Println (Raw (''requires auth '' @ url r)) s)"

text \<open>\<^verbatim>\<open>mwPanic\<close>: the deferred function runs when \<open>h\<close> is done; \<^verbatim>\<open>recover()\<close>
  is nil unless \<open>h\<close> panicked. The message is \<^verbatim>\<open>fmt.Sprintf("%v %s", rec,
  debug.Stack())\<close>.\<close>

definition mwPanic :: "handler \<Rightarrow> handler" where
  "mwPanic h w r s =
     (case h w r s of
        (Ok u, s1) \<Rightarrow> (Ok (), s1)
      | (Panicking rec, s1) \<Rightarrow> logEvent (Some r) ''panic'' (rec @ '' '' @ stack s1) s1)"

text \<open>\<^verbatim>\<open>mwLog\<close>, lines 111 to 119: the start time and the seeded log data.\<close>

definition mwLog_seed :: "request \<Rightarrow> state \<Rightarrow> (int \<times> map_ptr) outcome \<times> state" where
  "mwLog_seed r s =
     (let start = now s in
      case logDataGet (Some r) s of
        (Panicking p, s') \<Rightarrow> (Panicking p, s')
      | (Ok logData, s1) \<Rightarrow>
          (let s2 = map_set logData ''request_time'' (VInt (time_Unix start)) s1;
               (n, s3) = rand_Int63n 1000000000 s2;
               s4 = map_set logData ''request_id'' (VStr (fmt_Sprintf_08x n)) s3;
               s5 = map_set logData ''event'' (VStr ''request'') s4;
               s6 = map_set logData ''remote_addr'' (VStr (remoteAddr r)) s5;
               s7 = map_set logData ''method'' (VStr (reqMethod r)) s6;
               s8 = map_set logData ''url'' (VStr (url r)) s7;
               s9 = map_set logData ''content_length'' (VInt (contentLength r)) s8
           in (Ok (start, logData), s9)))"

text \<open>\<^verbatim>\<open>mwLog\<close>, lines 125 to 134: the one-time installation of the constructor,
  and a recorder taken from the pool and reset. The type assertion on a nil
  \<^verbatim>\<open>Get()\<close> panics.\<close>

definition mwLog_acquire :: "sink_id \<Rightarrow> state \<Rightarrow> lw_ptr outcome \<times> state" where
  "mwLog_acquire w s =
     (let s1 = (if \<not> ranOnce s then s\<lparr>ranOnce := True, writers_New := True\<rparr> else s) in
      case writers_Get s1 of
        (None, s2) \<Rightarrow>
          (Panicking ''interface conversion: interface {} is nil, not *main.logWriter'', s2)
      | (Some lw, s2) \<Rightarrow>
          (let s3 = lw_upd lw (\<lambda>x. x\<lparr>responseWriter := Some w\<rparr>) s2;
               s4 = lw_upd lw (\<lambda>x. x\<lparr>code := 200\<rparr>) s3;
               s5 = lw_upd lw (\<lambda>x. x\<lparr>headerWritten := False\<rparr>) s4
           in (Ok lw, s5)))"

text \<open>\<^verbatim>\<open>mwLog\<close>, lines 139 to 142: what follows the return of the wrapped
  handler.\<close>

definition mwLog_finish :: "int \<Rightarrow> map_ptr \<Rightarrow> lw_ptr \<Rightarrow> state \<Rightarrow> unit outcome \<times> state" where
  "mwLog_finish start logData lw s =
     (let s1 = map_set logData ''code'' (VInt (logWriter_Code lw s)) s;
          s2 = map_set logData ''tts_ns'' (VInt (go_div (time_Since start s1) 1000000)) s1
      in case logAsString logData s2 of
           (Panicking p, s') \<Rightarrow> (Panicking p, s')
         | (Ok t, s3) \<Rightarrow> (Ok (), log_Println t s3))"

text \<open>\<^verbatim>\<open>mwLog\<close>: \<^verbatim>\<open>defer writers.Put(lw)\<close> is registered once the recorder is
  reset, and runs however the rest ends.\<close>

definition mwLog :: "handler \<Rightarrow> handler" where
  "mwLog h w r s =
     (case mwLog_seed r s of
        (Panicking p, s') \<Rightarrow> (Panicking p, s')
      | (Ok (start, logData), s1) \<Rightarrow>
          (case mwLog_acquire w s1 of
             (Panicking p, s') \<Rightarrow> (Panicking p, s')
           | (Ok lw, s2) \<Rightarrow>
               (case h lw r s2 of
                  (Panicking p, s3) \<Rightarrow> (Panicking p, writers_Put lw s3)
                | (Ok u, s3) \<Rightarrow>
                    (case mwLog_finish start logData lw s3 of
                       (Panicking p, s4) \<Rightarrow> (Panicking p, writers_Put lw s4)
                     | (Ok u', s4) \<Rightarrow> (Ok (), writers_Put lw s4)))))"

text \<open>\<^verbatim>\<open>http.Handle("/", mwPanic(mwLog(r)))\<close>, with the handlers behind the
  router given by their calls.\<close>

definition serve :: "op list \<Rightarrow> handler" where
  "serve ops = mwPanic (mwLog (run_ops ops))"

text \<open>The process at start: nothing allocated, nothing logged, the pool empty and
  without constructor.\<close>

definition init_state :: state where
  "init_state =
     \<lparr>maps = (\<lambda>a. []), maps_next = 0,
      lws = (\<lambda>a. \<lparr>code = 0, headerWritten = False, responseWriter = None\<rparr>), lws_next = 0,
      sinks = (\<lambda>w. []), log_out = [], now = 1700000000123456789,
      rnd = (\<lambda>i. 48879 + 1000000000 * i), rnd_pos = 0, stack = ''goroutine 1 [running]'',
      ranOnce = False, writers_New = False, writers_items = []\<rparr>"

definition get_root :: request where
  "get_root =
     \<lparr>ctx_log = None, remoteAddr = ''127.0.0.1:5000'', reqMethod = ''GET'', url = ''/'',
      contentLength = 0\<rparr>"

subsection \<open>Reading runs and emitted lines\<close>

text \<open>The value of a field of an emitted line; literal text has no fields.\<close>

definition field :: "gostring \<Rightarrow> string \<Rightarrow> val option" where
  "field t k = (case t of Json m \<Rightarrow> map_of m k | Raw x \<Rightarrow> None)"

definition has_fields :: "string list \<Rightarrow> gostring \<Rightarrow> bool" where
  "has_fields ks t = list_all (\<lambda>k. field t k \<noteq> None) ks"

definition seed_keys :: "string list" where
  "seed_keys =
     [''request_time'', ''request_id'', ''event'', ''remote_addr'', ''method'', ''url'',
      ''content_length'']"

text \<open>
  What a handler does, read off its calls, for a request whose context holds no log map
  (each \<^verbatim>\<open>logEvent\<close> and \<^verbatim>\<open>logError\<close> then starts from an empty map) and a
  recorder that wraps a sink: the value of the panic it ends in, if it does; the lines it
  prints by itself; the status codes of its \<^verbatim>\<open>WriteHeader\<close> calls that returned; and
  whether the header of the sink is written afterwards. The first argument tells whether
  the header of the sink is written before.
\<close>

record summary =
  panic_value :: "string option"
  printed :: "gostring list"
  recorded :: "int list"
  header_out :: bool

definition quiet :: "bool \<Rightarrow> summary" where
  "quiet hw = \<lparr>panic_value = None, printed = [], recorded = [], header_out = hw\<rparr>"

fun sum_op :: "op \<Rightarrow> bool \<Rightarrow> summary" and sum_ops :: "op list \<Rightarrow> bool \<Rightarrow> summary" where
  "sum_op (WriteHeader c) hw =
     (if sink_rejects hw c then (quiet hw)\<lparr>panic_value := Some (invalid_code c)\<rparr>
      else (quiet (hw \<or> commits (SinkWriteHeader c)))\<lparr>recorded := [c]\<rparr>)"
| "sum_op (Write buf) hw = quiet True"
| "sum_op (Println t) hw = (quiet hw)\<lparr>printed := [Raw t]\<rparr>"
| "sum_op (LogDataAdd k v) hw = quiet hw"
| "sum_op (LogDataReplace m) hw = quiet hw"
| "sum_op (LogEvent e m) hw =
     (quiet hw)\<lparr>printed := [Json [(''event'', VStr e), (''message'', VStr m)]]\<rparr>"
| "sum_op (LogError e m) hw =
     (quiet hw)\<lparr>printed := [Json [(''event'', VStr ''error''), (''message'', VStr m),
        (''error'', VStr (case e of None \<Rightarrow> ''internal error condition'' | Some x \<Rightarrow> x))]]\<rparr>"
| "sum_op (Elapse d) hw = quiet hw"
| "sum_op (Panic v) hw = (quiet hw)\<lparr>panic_value := Some v\<rparr>"
| "sum_op (Recover body) hw = (sum_ops body hw)\<lparr>panic_value := None\<rparr>"
| "sum_ops [] hw = quiet hw"
| "sum_ops (x # xs) hw =
     (let a = sum_op x hw in
      case panic_value a of
        Some v \<Rightarrow> a
      | None \<Rightarrow>
          (let b = sum_ops xs (header_out a) in
           \<lparr>panic_value = panic_value b, printed = printed a @ printed b,
            recorded = recorded a @ recorded b, header_out = header_out b\<rparr>))"

text \<open>The panic value of a handler that ends in a panic: of a \<open>Panic\<close> call, or of a
  header write that the sink rejects, outside of any \<open>Recover\<close>.\<close>

definition first_panic :: "bool \<Rightarrow> op list \<Rightarrow> string option" where
  "first_panic hw ops = panic_value (sum_ops ops hw)"

text \<open>The status codes a handler passes to the \<^verbatim>\<open>WriteHeader\<close> calls that return, in
  order.\<close>

definition status_calls :: "bool \<Rightarrow> op list \<Rightarrow> int list" where
  "status_calls hw ops = recorded (sum_ops ops hw)"

text \<open>The lines a handler prints by itself before it returns or panics.\<close>

definition own_lines :: "bool \<Rightarrow> op list \<Rightarrow> gostring list" where
  "own_lines hw ops = printed (sum_ops ops hw)"

text \<open>The pool can hand out a recorder: it holds one, or the constructor is installed, or
  it will be installed by the next request. True at start and kept by every request.\<close>

definition pool_ok :: "state \<Rightarrow> bool" where
  "pool_ok s \<longleftrightarrow> writers_items s \<noteq> [] \<or> writers_New s \<or> \<not> ranOnce s"

text \<open>What a handler's calls leave alone.\<close>

definition handler_frame :: "lw_ptr \<Rightarrow> state \<Rightarrow> state \<Rightarrow> bool" where
  "handler_frame lw s s' \<longleftrightarrow>
     maps_next s \<le> maps_next s' \<and> (\<forall>a. a < maps_next s \<longrightarrow> maps s' a = maps s a) \<and>
     responseWriter (lws s' lw) = responseWriter (lws s lw) \<and>
     now s \<le> now s' \<and> stack s' = stack s \<and>
     writers_items s' = writers_items s \<and> writers_New s' = writers_New s \<and>
     ranOnce s' = ranOnce s \<and> lws_next s' = lws_next s"

text \<open>A run of handler calls with recorder \<open>lw\<close> on sink \<open>w\<close>, from state \<open>s\<close>,
  agrees with a summary.\<close>

definition run_matches ::
  "lw_ptr \<Rightarrow> sink_id \<Rightarrow> state \<Rightarrow> unit outcome \<times> state \<Rightarrow> summary \<Rightarrow> bool" where
  "run_matches lw w s res a \<longleftrightarrow>
     fst res = (case panic_value a of None \<Rightarrow> Ok () | Some v \<Rightarrow> Panicking v) \<and>
     handler_frame lw s (snd res) \<and>
     log_out (snd res) = log_out s @ printed a \<and>
     code (lws (snd res) lw) = last (code (lws s lw) # recorded a) \<and>
     wroteHeader (sinks (snd res) w) = header_out a"

text \<open>The pooled recorders and the one-time installation of the constructor.\<close>

definition same_pool :: "state \<Rightarrow> state \<Rightarrow> bool" where
  "same_pool s s' \<longleftrightarrow>
     writers_items s' = writers_items s \<and> writers_New s' = writers_New s \<and>
     ranOnce s' = ranOnce s \<and> lws_next s' = lws_next s"

text \<open>The log data that lines 113 to 119 of \<^verbatim>\<open>mwLog\<close> build in an empty map,
  from the request and from the clock and the random source of the state.\<close>

definition seeded :: "request \<Rightarrow> state \<Rightarrow> gomap" where
  "seeded r s =
     [(''request_time'', VInt (time_Unix (now s))),
      (''request_id'', VStr (fmt_Sprintf_08x (int (rnd s (rnd_pos s) mod 1000000000)))),
      (''event'', VStr ''request''),
      (''remote_addr'', VStr (remoteAddr r)),
      (''method'', VStr (reqMethod r)),
      (''url'', VStr (url r)),
      (''content_length'', VInt (contentLength r))]"

text \<open>A state in which the map at address 0 holds a value that cannot be encoded, and a
  request whose context holds that map.\<close>

definition bad_state :: state where
  "bad_state = init_state\<lparr>maps := (maps init_state)(0 := [(''k'', VUnsupported)]), maps_next := 1\<rparr>"

definition bad_request :: request where
  "bad_request = get_root\<lparr>ctx_log := Some 0\<rparr>"

text \<open>A recorder as \<^verbatim>\<open>mwLog\<close> resets it, around a sink on which nothing was called;
  and a recorder that has forwarded \<^verbatim>\<open>WriteHeader(404)\<close> to its sink.\<close>

definition fresh_state :: state where
  "fresh_state = init_state\<lparr>lws := (lws init_state)
     (0 := \<lparr>code = 200, headerWritten = False, responseWriter = Some 7\<rparr>)\<rparr>"

definition repeat_state :: state where
  "repeat_state = init_state\<lparr>lws := (lws init_state)
     (0 := \<lparr>code = 404, headerWritten = True, responseWriter = Some 7\<rparr>),
     sinks := (sinks init_state)(7 := [SinkWriteHeader 404])\<rparr>"

section \<open>Properties\<close>

subsection \<open>Serialisation, hexadecimal formatting\<close>

lemma logError_nil: "logError None e m s = (Panicking nil_deref, s)"
  by (simp add: logError.simps logDataGet_def)

lemma logAsString_ok:
  "\<not> list_ex (\<lambda>kv. snd kv = VUnsupported) (maps s l) \<Longrightarrow> logAsString l s = (Ok (Json (maps s l)), s)"
  by (simp add: logAsString.simps json_Marshal_def)

lemma logAsString_fail:
  "list_ex (\<lambda>kv. snd kv = VUnsupported) (maps s l) \<Longrightarrow> logAsString l s = (Panicking nil_deref, s)"
  by (simp add: logAsString.simps json_Marshal_def logError_nil)

lemma logAsString_state: "snd (logAsString l s) = s"
  by (cases "list_ex (\<lambda>kv. snd kv = VUnsupported) (maps s l)")
     (simp_all add: logAsString_ok logAsString_fail)

lemma hex_digit_in: "d < 16 \<Longrightarrow> hex_digit d \<in> set ''0123456789abcdef''"
  unfolding hex_digit_def by (rule nth_mem) simp

lemma hex_chars: "set (hex n) \<subseteq> set ''0123456789abcdef''"
proof (induction n rule: hex.induct)
  case (1 n)
  show ?case
  proof (cases "n < 16")
    case True
    then show ?thesis using hex_digit_in [of n] by (subst hex.simps) simp
  next
    case False
    have "hex_digit (n mod 16) \<in> set ''0123456789abcdef''"
      by (rule hex_digit_in) simp
    with False 1 show ?thesis by (subst hex.simps) simp
  qed
qed

lemma hex_length: "n < 16 ^ k \<Longrightarrow> 0 < k \<Longrightarrow> length (hex n) \<le> k"
proof (induction n arbitrary: k rule: hex.induct)
  case (1 n)
  show ?case
  proof (cases "n < 16")
    case True
    with 1 show ?thesis by (subst hex.simps) simp
  next
    case False
    obtain j where k: "k = Suc j" using 1(3) by (cases k) auto
    from False 1(2) k have "0 < j" by (cases j) auto
    moreover from 1(2) k have "n div 16 < 16 ^ j"
      by (simp add: less_mult_imp_div_less mult.commute)
    ultimately have "length (hex (n div 16)) \<le> j" using 1(1) False by blast
    with False k show ?thesis by (subst hex.simps) simp
  qed
qed

lemma sprintf_08x_shape:
  assumes "0 \<le> v" "v < 1000000000"
  shows "length (fmt_Sprintf_08x v) = 8 \<and> set (fmt_Sprintf_08x v) \<subseteq> set ''0123456789abcdef''"
proof -
  have "nat v < 16 ^ 8" using assms by simp
  then have len: "length (hex (nat v)) \<le> 8" by (rule hex_length) simp
  have "set (pad0 8 (hex (nat v))) \<subseteq> set ''0123456789abcdef''"
    using hex_chars [of "nat v"] by (auto simp: pad0_def)
  moreover have "length (pad0 8 (hex (nat v))) = 8"
    using len by (simp add: pad0_def)
  ultimately show ?thesis using assms by (simp add: fmt_Sprintf_08x_def)
qed

lemma map_of_update_if:
  "map_of (AList.update k v al) k' = (if k' = k then Some v else map_of al k')"
  by (simp add: update_conv')


lemma dec_small: "n < 10 \<Longrightarrow> dec n = [dec_digit n]"
  by (subst dec.simps) simp

lemma invalid_code_0: "invalid_code 0 = ''invalid WriteHeader code 0''"
  by (simp add: invalid_code_def fmt_Sprintf_v_def dec_small dec_digit_def)

subsection \<open>The recorder and its sink\<close>

lemma wroteHeader_snoc: "wroteHeader (calls @ [c]) \<longleftrightarrow> wroteHeader calls \<or> commits c"
  by (simp add: wroteHeader_def)

lemma rejected_not_commits: "sink_rejects hw c \<Longrightarrow> \<not> commits (SinkWriteHeader c)"
  by (auto simp: sink_rejects_def split: if_splits)

lemma WriteHeader_accepted:
  assumes "responseWriter (lws s l) = Some w" and "\<not> sink_rejects (wroteHeader (sinks s w)) c"
  shows "logWriter_WriteHeader l c s =
     (Ok (), lw_upd l (\<lambda>x. x\<lparr>headerWritten := True\<rparr>) (lw_upd l (\<lambda>x. x\<lparr>code := c\<rparr>)
        (sink_do w (SinkWriteHeader c) (lw_upd l (\<lambda>x. x\<lparr>headerWritten := False\<rparr>) s))))"
proof -
  have "responseWriter (lws (lw_upd l (\<lambda>x. x\<lparr>headerWritten := False\<rparr>) s) l) = Some w"
    and "sinks (lw_upd l (\<lambda>x. x\<lparr>headerWritten := False\<rparr>) s) = sinks s"
    and "\<not> headerWritten (lws (lw_upd l (\<lambda>x. x\<lparr>headerWritten := False\<rparr>) s) l)"
    using assms(1) by (simp_all add: lw_upd_def)
  then show ?thesis
    using assms(2) by (simp add: logWriter_WriteHeader_def sink_WriteHeader_def Let_def)
qed

lemma WriteHeader_rejected:
  assumes "responseWriter (lws s l) = Some w" and "sink_rejects (wroteHeader (sinks s w)) c"
  shows "logWriter_WriteHeader l c s =
     (Panicking (invalid_code c),
      sink_do w (SinkWriteHeader c) (lw_upd l (\<lambda>x. x\<lparr>headerWritten := False\<rparr>) s))"
proof -
  have "responseWriter (lws (lw_upd l (\<lambda>x. x\<lparr>headerWritten := False\<rparr>) s) l) = Some w"
    and "sinks (lw_upd l (\<lambda>x. x\<lparr>headerWritten := False\<rparr>) s) = sinks s"
    and "\<not> headerWritten (lws (lw_upd l (\<lambda>x. x\<lparr>headerWritten := False\<rparr>) s) l)"
    using assms(1) by (simp_all add: lw_upd_def)
  then show ?thesis
    using assms(2) by (simp add: logWriter_WriteHeader_def sink_WriteHeader_def Let_def)
qed

subsection \<open>What a handler run changes\<close>

text \<open>The stub handlers and \<^verbatim>\<open>mwAuth\<close> are handlers of this kind.\<close>

lemma indexHandler_ops: "indexHandler = run_ops [Println ''index handler'']"
  by (intro ext) (simp add: indexHandler_def)

lemma somethingHandler_ops: "somethingHandler = run_ops [Println ''handle unauth'']"
  by (intro ext) (simp add: somethingHandler_def)

lemma anotherHandler_ops: "anotherHandler = run_ops [Println ''handle auth'']"
  by (intro ext) (simp add: anotherHandler_def)

lemma mwAuth_ops:
  "mwAuth (run_ops ops) w r = run_ops (Println (''requires auth '' @ url r) # ops) w r"
  by (intro ext) (simp add: mwAuth_def)

lemma handler_frame_refl: "handler_frame lw s s"
  by (simp add: handler_frame_def)

lemma handler_frame_trans:
  "handler_frame lw s s1 \<Longrightarrow> handler_frame lw s1 s2 \<Longrightarrow> handler_frame lw s s2"
  by (auto simp: handler_frame_def)

lemma logEvent_fresh:
  assumes "ctx_log r = None"
  shows "logEvent (Some r) e m s =
     (Ok (), s\<lparr>maps := (maps s)(maps_next s := [(''event'', VStr e), (''message'', VStr m)]),
               maps_next := Suc (maps_next s),
               log_out := log_out s @ [Json [(''event'', VStr e), (''message'', VStr m)]]\<rparr>)"
  using assms
  by (simp add: logEvent_def logDataGet_def make_map_def map_set_def logAsString_ok log_Println_def)

lemma logError_fresh:
  assumes "ctx_log r = None"
  shows "logError (Some r) e m s =
     (Ok (), s\<lparr>maps := (maps s)(maps_next s := [(''event'', VStr ''error''), (''message'', VStr m),
           (''error'', VStr (case e of None \<Rightarrow> ''internal error condition'' | Some x \<Rightarrow> x))]),
               maps_next := Suc (maps_next s),
               log_out := log_out s @ [Json [(''event'', VStr ''error''), (''message'', VStr m),
           (''error'', VStr (case e of None \<Rightarrow> ''internal error condition'' | Some x \<Rightarrow> x))]]\<rparr>)"
  using assms
  by (simp add: logError.simps logDataGet_def make_map_def map_set_def logAsString_ok log_Println_def)


lemma last_last: "last (last (c # xs) # ys) = last (c # xs @ ys)"
  by (cases ys) simp_all

lemma run_matches_seq:
  assumes "run_matches lw w s (Ok (), s1) a" and "panic_value a = None"
    and "run_matches lw w s1 res b"
  shows "run_matches lw w s res
     \<lparr>panic_value = panic_value b, printed = printed a @ printed b,
      recorded = recorded a @ recorded b, header_out = header_out b\<rparr>"
proof -
  have fr: "handler_frame lw s (snd res)"
    using assms(1,3) by (auto simp: run_matches_def intro: handler_frame_trans)
  have cd: "code (lws (snd res) lw) = last (code (lws s lw) # recorded a @ recorded b)"
  proof -
    have "code (lws (snd res) lw) = last (code (lws s1 lw) # recorded b)"
      using assms(3) by (simp add: run_matches_def)
    also have "code (lws s1 lw) = last (code (lws s lw) # recorded a)"
      using assms(1) by (simp add: run_matches_def)
    finally show ?thesis by (simp only: last_last)
  qed
  show ?thesis
    using assms fr cd by (simp add: run_matches_def)
qed

lemma run_op_matches_base:
  assumes "ctx_log r = None" and "responseWriter (lws s lw) = Some w"
    and "\<And>body. x \<noteq> Recover body"
  shows "run_matches lw w s (run_op x lw r s) (sum_op x (wroteHeader (sinks s w)))"
proof (cases x)
  case (WriteHeader c)
  show ?thesis
  proof (cases "sink_rejects (wroteHeader (sinks s w)) c")
    case True
    then show ?thesis
      using WriteHeader assms(2) rejected_not_commits [OF True]
      by (auto simp: WriteHeader_rejected run_matches_def handler_frame_def quiet_def
          wroteHeader_snoc lw_upd_def sink_do_def)
  next
    case False
    then show ?thesis
      using WriteHeader assms(2)
      by (simp add: WriteHeader_accepted run_matches_def handler_frame_def quiet_def
          wroteHeader_snoc lw_upd_def sink_do_def)
  qed
next
  case (Write b)
  then show ?thesis using assms
    by (simp add: logWriter_Write_def sink_Write_def lw_upd_def sink_do_def run_matches_def
        handler_frame_def quiet_def wroteHeader_snoc)
next
  case (Println t)
  then show ?thesis
    by (simp add: log_Println_def run_matches_def handler_frame_def quiet_def)
next
  case (LogDataAdd k v)
  then show ?thesis using assms
    by (simp add: logDataAdd_def make_map_def map_set_def run_matches_def handler_frame_def
        quiet_def)
next
  case (LogDataReplace m)
  then show ?thesis
    by (simp add: logDataReplace_def make_map_def run_matches_def handler_frame_def quiet_def)
next
  case (LogEvent e m)
  then show ?thesis using assms
    by (simp add: logEvent_fresh run_matches_def handler_frame_def quiet_def)
next
  case (LogError e m)
  then show ?thesis using assms
    by (simp add: logError_fresh run_matches_def handler_frame_def quiet_def)
next
  case (Elapse d)
  then show ?thesis
    by (simp add: run_matches_def handler_frame_def quiet_def)
next
  case (Panic v)
  then show ?thesis
    by (simp add: run_matches_def handler_frame_def quiet_def)
next
  case (Recover body)
  then show ?thesis using assms(3) by simp
qed

lemma run_matches_summary:
  "ctx_log r = None \<Longrightarrow> responseWriter (lws s lw) = Some w \<Longrightarrow>
     run_matches lw w s (run_op x lw r s) (sum_op x (wroteHeader (sinks s w)))"
  "ctx_log r = None \<Longrightarrow> responseWriter (lws s lw) = Some w \<Longrightarrow>
     run_matches lw w s (run_ops xs lw r s) (sum_ops xs (wroteHeader (sinks s w)))"
proof (induction x lw r s and xs lw r s rule: run_op_run_ops.induct)
  case (10 body lw r s)
  from "10.IH" [OF "10.prems"]
  have "run_matches lw w s (run_ops body lw r s) (sum_ops body (wroteHeader (sinks s w)))" .
  then show ?case
    by (cases "run_ops body lw r s"; cases "fst (run_ops body lw r s)")
       (simp_all add: run_matches_def)
next
  case (11 lw r s)
  then show ?case
    by (simp add: run_matches_def handler_frame_refl quiet_def)
next
  case (12 x xs lw r s)
  define a where "a = sum_op x (wroteHeader (sinks s w))"
  have m1: "run_matches lw w s (run_op x lw r s) a"
    unfolding a_def using "12.IH"(1) "12.prems" by blast
  obtain res s1 where step: "run_op x lw r s = (res, s1)"
    by (cases "run_op x lw r s")
  show ?case
  proof (cases "panic_value a")
    case (Some v)
    then have "res = Panicking v"
      using m1 step by (simp add: run_matches_def)
    then show ?thesis
      using m1 step Some by (simp add: a_def [symmetric])
  next
    case None
    then have ok: "res = Ok ()"
      using m1 step by (simp add: run_matches_def)
    have rw: "responseWriter (lws s1 lw) = Some w"
      using m1 step "12.prems"(2) by (simp add: run_matches_def handler_frame_def)
    have hw: "wroteHeader (sinks s1 w) = header_out a"
      using m1 step by (simp add: run_matches_def)
    have "run_matches lw w s1 (run_ops xs lw r s1) (sum_ops xs (wroteHeader (sinks s1 w)))"
      by (rule "12.IH"(2) [OF step [symmetric] ok "12.prems"(1) rw])
    then have m2: "run_matches lw w s1 (run_ops xs lw r s1) (sum_ops xs (header_out a))"
      by (simp only: hw)
    have m1': "run_matches lw w s (Ok (), s1) a"
      using m1 step ok by simp
    from run_matches_seq [OF m1' None m2] show ?thesis
      using step ok None by (simp add: a_def [symmetric] Let_def)
  qed
qed (erule (1) run_op_matches_base, simp)+

subsection \<open>The logging middleware on a request without log context\<close>

lemma seed_None:
  assumes "ctx_log r = None"
  shows "mwLog_seed r s =
     (Ok (now s, maps_next s),
      s\<lparr>maps := (maps s)(maps_next s := seeded r s), maps_next := Suc (maps_next s),
        rnd_pos := Suc (rnd_pos s)\<rparr>)"
  using assms
  by (simp add: mwLog_seed_def logDataGet_def make_map_def map_set_def rand_Int63n_def
      seeded_def Let_def)

lemma acquire_ok:
  assumes "pool_ok s"
  shows "\<exists>lw s'. mwLog_acquire w s = (Ok lw, s') \<and>
           lws s' lw = \<lparr>code = 200, headerWritten = False, responseWriter = Some w\<rparr> \<and>
           lw # writers_items s' = (if writers_items s = [] then [lws_next s] else writers_items s) \<and>
           maps s' = maps s \<and> maps_next s' = maps_next s \<and> log_out s' = log_out s \<and>
           now s' = now s \<and> stack s' = stack s \<and> sinks s' = sinks s"
proof (cases "writers_items s")
  case Nil
  with assms show ?thesis
    by (auto simp: mwLog_acquire_def writers_Get_def lw_upd_def pool_ok_def)
next
  case (Cons a as)
  then show ?thesis
    by (auto simp: mwLog_acquire_def writers_Get_def lw_upd_def)
qed

lemma finish_seeded:
  assumes "maps s a = seeded r s0"
  shows "mwLog_finish start a lw s =
     (Ok (), s\<lparr>maps := (maps s)(a := seeded r s0 @
                  [(''code'', VInt (code (lws s lw))),
                   (''tts_ns'', VInt (go_div (time_Since start s) 1000000))]),
               log_out := log_out s @ [Json (seeded r s0 @
                  [(''code'', VInt (code (lws s lw))),
                   (''tts_ns'', VInt (go_div (time_Since start s) 1000000))])]\<rparr>)"
  using assms
  by (simp add: mwLog_finish_def map_set_def logAsString_ok log_Println_def seeded_def
      logWriter_Code_def time_Since_def Let_def)


lemma go_div_nonneg: "0 \<le> a \<Longrightarrow> 0 < b \<Longrightarrow> go_div a b = a div b"
  by (cases "a = 0") (simp_all add: go_div_def)

lemma time_Since_later: "start \<le> now s \<Longrightarrow> time_Since start s = min (now s - start) maxDuration"
  by (simp add: time_Since_def Let_def minDuration_def maxDuration_def min_def)

lemma mwLog_None:
  assumes "ctx_log r = None" and "pool_ok s"
  shows "\<exists>s'. mwLog (run_ops ops) w r s =
              ((case first_panic (wroteHeader (sinks s w)) ops of
                  None \<Rightarrow> Ok () | Some v \<Rightarrow> Panicking v), s') \<and>
            log_out s' = log_out s @ own_lines (wroteHeader (sinks s w)) ops @
              (case first_panic (wroteHeader (sinks s w)) ops of
                 None \<Rightarrow> [Json (seeded r s @
                   [(''code'', VInt (last (200 # status_calls (wroteHeader (sinks s w)) ops))),
                    (''tts_ns'', VInt (min (now s' - now s) maxDuration div 1000000))])]
               | Some v \<Rightarrow> []) \<and>
            now s \<le> now s' \<and> stack s' = stack s \<and>
            writers_items s' = (if writers_items s = [] then [lws_next s] else writers_items s) \<and>
            (first_panic (wroteHeader (sinks s w)) ops = None \<longrightarrow>
               logWriter_Code (hd (writers_items s')) s' =
                 last (200 # status_calls (wroteHeader (sinks s w)) ops))"
proof -
  define hw where "hw = wroteHeader (sinks s w)"
  define s1 where "s1 = s\<lparr>maps := (maps s)(maps_next s := seeded r s),
      maps_next := Suc (maps_next s), rnd_pos := Suc (rnd_pos s)\<rparr>"
  have seed: "mwLog_seed r s = (Ok (now s, maps_next s), s1)"
    unfolding s1_def using assms(1) by (rule seed_None)
  have "pool_ok s1"
    using assms(2) by (simp add: pool_ok_def s1_def)
  from acquire_ok [OF this, of w]
  obtain lw s2 where acq: "mwLog_acquire w s1 = (Ok lw, s2)"
    and lw: "lws s2 lw = \<lparr>code = 200, headerWritten = False, responseWriter = Some w\<rparr>"
    and pool: "lw # writers_items s2 =
        (if writers_items s1 = [] then [lws_next s1] else writers_items s1)"
    and same: "maps s2 = maps s1" "maps_next s2 = maps_next s1" "log_out s2 = log_out s1"
      "now s2 = now s1" "stack s2 = stack s1" "sinks s2 = sinks s1"
    by blast
  have rw: "responseWriter (lws s2 lw) = Some w"
    by (simp add: lw)
  have hw2: "wroteHeader (sinks s2 w) = hw"
    using same(6) by (simp add: s1_def hw_def)
  obtain res s3 where run: "run_ops ops lw r s2 = (res, s3)"
    by (cases "run_ops ops lw r s2")
  from run_matches_summary(2) [OF assms(1) rw, of ops]
  have m: "run_matches lw w s2 (res, s3) (sum_ops ops hw)"
    by (simp only: hw2 run)
  have res: "res = (case first_panic hw ops of None \<Rightarrow> Ok () | Some v \<Rightarrow> Panicking v)"
    and frame: "handler_frame lw s2 s3"
    and out: "log_out s3 = log_out s2 @ own_lines hw ops"
    and cd: "code (lws s3 lw) = last (code (lws s2 lw) # status_calls hw ops)"
    using m by (simp_all add: run_matches_def first_panic_def own_lines_def status_calls_def)
  have out3: "log_out s3 = log_out s @ own_lines hw ops"
    using out same(3) by (simp add: s1_def)
  have now3: "now s \<le> now s3"
    using frame same(4) by (simp add: handler_frame_def s1_def)
  have stack3: "stack s3 = stack s"
    using frame same(5) by (simp add: handler_frame_def s1_def)
  have pool3: "lw # writers_items s3 =
      (if writers_items s = [] then [lws_next s] else writers_items s)"
    using frame pool by (simp add: handler_frame_def s1_def)
  have c3: "code (lws s3 lw) = last (200 # status_calls hw ops)"
    using cd lw by simp
  have "\<exists>s'. mwLog (run_ops ops) w r s =
              ((case first_panic hw ops of None \<Rightarrow> Ok () | Some v \<Rightarrow> Panicking v), s') \<and>
            log_out s' = log_out s @ own_lines hw ops @
              (case first_panic hw ops of
                 None \<Rightarrow> [Json (seeded r s @
                   [(''code'', VInt (last (200 # status_calls hw ops))),
                    (''tts_ns'', VInt (min (now s' - now s) maxDuration div 1000000))])]
               | Some v \<Rightarrow> []) \<and>
            now s \<le> now s' \<and> stack s' = stack s \<and>
            writers_items s' = (if writers_items s = [] then [lws_next s] else writers_items s) \<and>
            (first_panic hw ops = None \<longrightarrow>
               logWriter_Code (hd (writers_items s')) s' = last (200 # status_calls hw ops))"
  proof (cases "first_panic hw ops")
    case (Some v)
    have "mwLog (run_ops ops) w r s = (Panicking v, writers_Put lw s3)"
      using seed acq run res Some by (simp add: mwLog_def)
    then show ?thesis
      using Some out3 now3 stack3 pool3 by (simp add: writers_Put_def)
  next
    case None
    have "maps_next s < maps_next s2"
      using same(2) by (simp add: s1_def)
    then have "maps s3 (maps_next s) = maps s2 (maps_next s)"
      using frame by (simp add: handler_frame_def)
    then have m3: "maps s3 (maps_next s) = seeded r s"
      using same(1) by (simp add: s1_def)
    have t3: "go_div (time_Since (now s) s3) 1000000 =
        min (now s3 - now s) maxDuration div 1000000"
      using now3 by (simp add: time_Since_later go_div_nonneg maxDuration_def)
    define line where "line = Json (seeded r s @
        [(''code'', VInt (last (200 # status_calls hw ops))),
         (''tts_ns'', VInt (min (now s3 - now s) maxDuration div 1000000))])"
    have fin: "mwLog_finish (now s) (maps_next s) lw s3 =
        (Ok (), s3\<lparr>maps := (maps s3)(maps_next s := seeded r s @
            [(''code'', VInt (last (200 # status_calls hw ops))),
             (''tts_ns'', VInt (min (now s3 - now s) maxDuration div 1000000))]),
          log_out := log_out s3 @ [line]\<rparr>)"
      unfolding line_def using finish_seeded [OF m3, of "now s" lw] by (simp only: c3 t3)
    have "mwLog (run_ops ops) w r s =
        (Ok (), writers_Put lw (s3\<lparr>maps := (maps s3)(maps_next s := seeded r s @
            [(''code'', VInt (last (200 # status_calls hw ops))),
             (''tts_ns'', VInt (min (now s3 - now s) maxDuration div 1000000))]),
          log_out := log_out s3 @ [line]\<rparr>))"
      using seed acq run res None fin by (simp add: mwLog_def)
    moreover have "hd (if writers_items s = [] then [lws_next s] else writers_items s) = lw"
      using pool3 by (metis list.sel(1))
    ultimately show ?thesis
      using None out3 now3 stack3 pool3 [symmetric] c3
      by (simp add: writers_Put_def line_def logWriter_Code_def)
  qed
  then show ?thesis
    by (simp only: hw_def)
qed

lemmas run_defs =
  serve_def mwPanic_def mwLog_def mwLog_seed_def mwLog_acquire_def mwLog_finish_def
  logEvent_def logDataGet_def logDataAdd_def logDataReplace_def make_map_def map_set_def
  log_Println_def json_Marshal_def time_Unix_def time_Since_def go_div_def rand_Int63n_def
  writers_Get_def writers_Put_def sink_do_def lw_upd_def logWriter_WriteHeader_def
  logWriter_Write_def logWriter_Code_def maxDuration_def minDuration_def
  sink_WriteHeader_def sink_Write_def sink_rejects_def wroteHeader_def

lemma serve_None:
  assumes "ctx_log r = None" and "pool_ok s"
  shows "\<exists>s'. serve ops w r s = (Ok (), s') \<and>
            log_out s' = log_out s @ own_lines (wroteHeader (sinks s w)) ops @
              [case first_panic (wroteHeader (sinks s w)) ops of
                 None \<Rightarrow> Json (seeded r s @
                   [(''code'', VInt (last (200 # status_calls (wroteHeader (sinks s w)) ops))),
                    (''tts_ns'', VInt (min (now s' - now s) maxDuration div 1000000))])
               | Some v \<Rightarrow>
                   Json [(''event'', VStr ''panic''), (''message'', VStr (v @ '' '' @ stack s))]] \<and>
            writers_items s' \<noteq> []"
proof -
  define hw where "hw = wroteHeader (sinks s w)"
  from mwLog_None [OF assms, of ops w]
  obtain s1 where run: "mwLog (run_ops ops) w r s =
        ((case first_panic hw ops of None \<Rightarrow> Ok () | Some v \<Rightarrow> Panicking v), s1)"
    and out: "log_out s1 = log_out s @ own_lines hw ops @
              (case first_panic hw ops of
                 None \<Rightarrow> [Json (seeded r s @
                   [(''code'', VInt (last (200 # status_calls hw ops))),
                    (''tts_ns'', VInt (min (now s1 - now s) maxDuration div 1000000))])]
               | Some v \<Rightarrow> [])"
    and st: "stack s1 = stack s"
    and pool: "writers_items s1 = (if writers_items s = [] then [lws_next s] else writers_items s)"
    unfolding hw_def by auto
  have ne: "writers_items s1 \<noteq> []"
    using pool by (simp split: if_splits)
  have "\<exists>s'. serve ops w r s = (Ok (), s') \<and>
            log_out s' = log_out s @ own_lines hw ops @
              [case first_panic hw ops of
                 None \<Rightarrow> Json (seeded r s @
                   [(''code'', VInt (last (200 # status_calls hw ops))),
                    (''tts_ns'', VInt (min (now s' - now s) maxDuration div 1000000))])
               | Some v \<Rightarrow>
                   Json [(''event'', VStr ''panic''), (''message'', VStr (v @ '' '' @ stack s))]] \<and>
            writers_items s' \<noteq> []"
  proof (cases "first_panic hw ops")
    case None
    then have "serve ops w r s = (Ok (), s1)"
      using run by (simp add: serve_def mwPanic_def)
    then show ?thesis using None out ne by simp
  next
    case (Some v)
    then have "serve ops w r s = logEvent (Some r) ''panic'' (v @ '' '' @ stack s1) s1"
      using run by (simp add: serve_def mwPanic_def)
    then show ?thesis
      using Some out ne st by (simp add: logEvent_fresh [OF assms(1)])
  qed
  then show ?thesis
    by (simp only: hw_def)
qed

lemma pool_ok_init: "pool_ok init_state"
  by (simp add: pool_ok_def init_state_def)

lemma pool_ok_serve:
  assumes "ctx_log r = None" and "pool_ok s"
  shows "pool_ok (snd (serve ops w r s))"
  using serve_None [OF assms, of ops w] by (auto simp: pool_ok_def)

subsection \<open>The pool during a request\<close>

lemma same_pool_refl: "same_pool s s"
  by (simp add: same_pool_def)

lemma same_pool_trans: "same_pool s s1 \<Longrightarrow> same_pool s1 s2 \<Longrightarrow> same_pool s s2"
  by (simp add: same_pool_def)

lemma logAsString_eqD: "logAsString l s = (x, y) \<Longrightarrow> y = s"
  using logAsString_state [of l s] by simp

lemma logEvent_same_pool: "same_pool s (snd (logEvent r e m s))"
  by (auto simp: logEvent_def logDataGet_def make_map_def map_set_def log_Println_def
      same_pool_def Let_def split: option.splits prod.splits outcome.splits
      dest!: logAsString_eqD)

lemma logError_same_pool: "same_pool s (snd (logError r e m s))"
  by (auto simp: logError.simps logDataGet_def make_map_def map_set_def log_Println_def
      same_pool_def Let_def split: option.splits prod.splits outcome.splits
      dest!: logAsString_eqD)

lemma run_same_pool:
  "same_pool s (snd (run_op x lw r s))"
  "same_pool s (snd (run_ops xs lw r s))"
proof (induction x lw r s and xs lw r s rule: run_op_run_ops.induct)
  case (1 c lw r s)
  show ?case
    by (simp add: logWriter_WriteHeader_def sink_WriteHeader_def lw_upd_def sink_do_def
        same_pool_def Let_def split: option.splits)
next
  case (2 buf lw r s)
  show ?case
    by (simp add: logWriter_Write_def sink_Write_def lw_upd_def sink_do_def same_pool_def
        Let_def split: option.splits)
next
  case (3 t lw r s)
  show ?case by (simp add: log_Println_def same_pool_def)
next
  case (4 k v lw r s)
  show ?case
    by (simp add: logDataAdd_def make_map_def map_set_def same_pool_def Let_def
        split: option.splits)
next
  case (5 m lw r s)
  show ?case
    by (simp add: logDataReplace_def make_map_def same_pool_def Let_def)
next
  case (6 e m lw r s)
  show ?case by (simp add: logEvent_same_pool)
next
  case (7 e m lw r s)
  show ?case by (simp add: logError_same_pool)
next
  case (8 d lw r s)
  show ?case by (simp add: same_pool_def)
next
  case (9 v lw r s)
  show ?case by (simp add: same_pool_def)
next
  case (10 body lw r s)
  then show ?case
    by (cases "run_ops body lw r s"; cases "fst (run_ops body lw r s)") simp_all
next
  case (11 lw r s)
  show ?case by (simp add: same_pool_refl)
next
  case (12 x xs lw r s)
  obtain res s1 where step: "run_op x lw r s = (res, s1)"
    by (cases "run_op x lw r s")
  have p1: "same_pool s s1"
    using "12.IH"(1) step by simp
  show ?case
  proof (cases res)
    case (Ok u)
    have "same_pool s1 (snd (run_ops xs lw r s1))"
      by (rule "12.IH"(2) [OF step [symmetric] Ok])
    with p1 have "same_pool s (snd (run_ops xs lw r s1))"
      by (rule same_pool_trans)
    then show ?thesis using step Ok by simp
  next
    case (Panicking p)
    then show ?thesis using step p1 by simp
  qed
qed

lemma seed_any:
  "\<exists>start logData s1. mwLog_seed r s = (Ok (start, logData), s1) \<and> same_pool s s1"
  by (cases "ctx_log r")
     (simp_all add: mwLog_seed_def logDataGet_def make_map_def map_set_def rand_Int63n_def
        same_pool_def Let_def)

lemma finish_same_pool: "same_pool s (snd (mwLog_finish start a lw s))"
  by (auto simp: mwLog_finish_def map_set_def log_Println_def same_pool_def Let_def
      split: prod.splits outcome.splits dest!: logAsString_eqD)

lemma acquire_pool_ok:
  assumes "pool_ok s"
  shows "\<exists>lw s'. mwLog_acquire w s = (Ok lw, s')"
  using acquire_ok [OF assms, of w] by blast

subsection \<open>Evaluating the identifier of the first request\<close>

lemma hex_small: "n < 16 \<Longrightarrow> hex n = [hex_digit n]"
  by (subst hex.simps) simp

lemma hex_big: "\<not> n < 16 \<Longrightarrow> hex n = hex (n div 16) @ [hex_digit (n mod 16)]"
  by (subst hex.simps) simp

lemma sprintf_beef: "fmt_Sprintf_08x 48879 = ''0000beef''"
proof -
  have "hex 48879 = ''beef''"
    by (simp add: hex_small hex_big hex_digit_def)
  moreover have "replicate 4 CHR ''0'' = ''0000''"
    by (simp add: eval_nat_numeral)
  ultimately show ?thesis
    by (simp add: fmt_Sprintf_08x_def pad0_def)
qed

subsection \<open>The recorder forwards every header write\<close>

text \<open>
  C3, as amended. Every call of \<^verbatim>\<open>WriteHeader\<close> on a recorder that wraps a sink, in
  every state and so whatever the \<open>headerWritten\<close> flag and whatever calls came before,
  forwards the header write to that sink. When the sink accepts the write (its header is
  written already, or the code is within 100 to 999), the call returns and \<^verbatim>\<open>Code()\<close>
  is the given code. When the sink rejects it with a panic, the call panics with the
  sink's value and \<^verbatim>\<open>Code()\<close> is what it was.
\<close>

theorem WriteHeader_always_forwards:
  assumes "responseWriter (lws s l) = Some w"
  shows "sinks (snd (logWriter_WriteHeader l c s)) w = sinks s w @ [SinkWriteHeader c] \<and>
         (if sink_rejects (wroteHeader (sinks s w)) c
          then fst (logWriter_WriteHeader l c s) = Panicking (invalid_code c) \<and>
               logWriter_Code l (snd (logWriter_WriteHeader l c s)) = logWriter_Code l s
          else fst (logWriter_WriteHeader l c s) = Ok () \<and>
               logWriter_Code l (snd (logWriter_WriteHeader l c s)) = c)"
proof (cases "sink_rejects (wroteHeader (sinks s w)) c")
  case True
  then show ?thesis
    by (simp add: WriteHeader_rejected [OF assms True] lw_upd_def sink_do_def
        logWriter_Code_def)
next
  case False
  then show ?thesis
    by (simp add: WriteHeader_accepted [OF assms False] lw_upd_def sink_do_def
        logWriter_Code_def)
qed

theorem WriteHeader_always_forwards_witness:
  "responseWriter (lws repeat_state 0) = Some 7 \<and>
   headerWritten (lws repeat_state 0) \<and>
   sinks repeat_state 7 = [SinkWriteHeader 404] \<and>
   fst (logWriter_WriteHeader 0 500 repeat_state) = Ok () \<and>
   sinks (snd (logWriter_WriteHeader 0 500 repeat_state)) 7
     = [SinkWriteHeader 404, SinkWriteHeader 500] \<and>
   logWriter_Code 0 (snd (logWriter_WriteHeader 0 500 repeat_state)) = 500"
proof -
  have h1: "responseWriter (lws repeat_state 0) = Some 7"
    by (simp add: repeat_state_def)
  have h2: "sinks repeat_state 7 = [SinkWriteHeader 404]"
    by (simp add: repeat_state_def)
  have h3: "\<not> sink_rejects (wroteHeader (sinks repeat_state 7)) 500"
    by (simp add: h2 sink_rejects_def wroteHeader_def)
  have h4: "headerWritten (lws repeat_state 0)"
    by (simp add: repeat_state_def)
  from WriteHeader_always_forwards [OF h1, of 500] show ?thesis
    using h1 h2 h3 h4 by simp
qed

text \<open>
  C3, as stated, fails for a code that the sink rejects: on a recorder just reset by
  \<^verbatim>\<open>mwLog\<close>, around a sink that has written nothing, \<^verbatim>\<open>WriteHeader(0)\<close> is
  forwarded, panics in the sink, and the recorded code stays 200.
\<close>

theorem rejected_code_is_not_recorded:
  "fst (logWriter_WriteHeader 0 0 fresh_state) = Panicking ''invalid WriteHeader code 0'' \<and>
   sinks (snd (logWriter_WriteHeader 0 0 fresh_state)) 7 = [SinkWriteHeader 0] \<and>
   logWriter_Code 0 (snd (logWriter_WriteHeader 0 0 fresh_state)) = 200"
  by (simp add: logWriter_WriteHeader_def sink_WriteHeader_def sink_rejects_def wroteHeader_def
      lw_upd_def sink_do_def logWriter_Code_def fresh_state_def init_state_def Let_def
      invalid_code_0)

subsection \<open>The request identifier\<close>

text \<open>
  C6. The seeding part of \<^verbatim>\<open>mwLog\<close> always returns, and the \<open>request_id\<close>
  it stores in the log data is a string of exactly eight characters, each a lowercase
  hexadecimal digit.
\<close>

theorem request_id_is_8_hex:
  "\<exists>start a s' rid. mwLog_seed r s = (Ok (start, a), s') \<and>
     map_of (maps s' a) ''request_id'' = Some (VStr rid) \<and>
     length rid = 8 \<and> set rid \<subseteq> set ''0123456789abcdef''"
proof -
  define n where "n = int (rnd s (rnd_pos s) mod 1000000000)"
  have "0 \<le> n" "n < 1000000000" by (simp_all add: n_def)
  then have shape: "length (fmt_Sprintf_08x n) = 8 \<and>
      set (fmt_Sprintf_08x n) \<subseteq> set ''0123456789abcdef''"
    by (rule sprintf_08x_shape)
  show ?thesis
  proof (cases "ctx_log r")
    case None
    then show ?thesis using shape
      by (simp add: mwLog_seed_def logDataGet_def make_map_def rand_Int63n_def map_set_def
          map_of_update_if n_def Let_def)
  next
    case (Some a)
    then show ?thesis using shape
      by (simp add: mwLog_seed_def logDataGet_def rand_Int63n_def map_set_def
          map_of_update_if n_def Let_def)
  qed
qed

theorem request_id_is_8_hex_witness:
  "\<exists>start a s' rid. mwLog_seed get_root init_state = (Ok (start, a), s') \<and>
     map_of (maps s' a) ''request_id'' = Some (VStr rid) \<and>
     length rid = 8 \<and> set rid \<subseteq> set ''0123456789abcdef''"
  using request_id_is_8_hex [of get_root init_state] .

subsection \<open>One line per request\<close>

text \<open>
  C1, as amended. For every request that arrives without a log map in its context, and
  whatever the handler does, \<^verbatim>\<open>mwPanic(mwLog(h))\<close> returns normally and adds exactly one
  line to the log after the lines the handler printed itself. When the handler returns, that
  line has the seven seed fields, \<open>code\<close> and \<open>tts_ns\<close>. When the handler panics,
  that line is the panic event: its \<open>event\<close> is \<open>panic\<close> and its \<open>message\<close> is
  the panic value followed by the stack trace.
\<close>

theorem serve_logs_one_line:
  assumes "ctx_log r = None" and "pool_ok s"
  shows "fst (serve ops w r s) = Ok () \<and>
         (\<exists>line. log_out (snd (serve ops w r s)) =
              log_out s @ own_lines (wroteHeader (sinks s w)) ops @ [line] \<and>
            (case first_panic (wroteHeader (sinks s w)) ops of
               None \<Rightarrow> has_fields (seed_keys @ [''code'', ''tts_ns'']) line
             | Some v \<Rightarrow>
                 field line ''event'' = Some (VStr ''panic'') \<and>
                 field line ''message'' = Some (VStr (v @ '' '' @ stack s))))"
proof -
  from serve_None [OF assms, of ops w]
  obtain s' where run: "serve ops w r s = (Ok (), s')"
    and out: "log_out s' = log_out s @ own_lines (wroteHeader (sinks s w)) ops @
              [case first_panic (wroteHeader (sinks s w)) ops of
                 None \<Rightarrow> Json (seeded r s @
                   [(''code'', VInt (last (200 # status_calls (wroteHeader (sinks s w)) ops))),
                    (''tts_ns'', VInt (min (now s' - now s) maxDuration div 1000000))])
               | Some v \<Rightarrow>
                   Json [(''event'', VStr ''panic''), (''message'', VStr (v @ '' '' @ stack s))]]"
    by auto
  show ?thesis
  proof (cases "first_panic (wroteHeader (sinks s w)) ops")
    case None
    then show ?thesis using run out
      by (simp add: has_fields_def field_def seed_keys_def seeded_def)
  next
    case (Some v)
    then show ?thesis using run out
      by (simp add: field_def)
  qed
qed

theorem serve_logs_one_line_witness:
  "ctx_log get_root = None \<and> pool_ok init_state \<and>
   fst (serve [Println ''index handler''] 0 get_root init_state) = Ok () \<and>
   (\<exists>line. log_out (snd (serve [Println ''index handler''] 0 get_root init_state)) =
        [Raw ''index handler'', line] \<and>
      has_fields (seed_keys @ [''code'', ''tts_ns'']) line)"
proof -
  have h1: "ctx_log get_root = None"
    by (simp add: get_root_def)
  have h2: "pool_ok init_state"
    by (simp add: pool_ok_def init_state_def)
  have h3: "log_out init_state = []"
    by (simp add: init_state_def)
  have h4: "own_lines (wroteHeader (sinks init_state 0)) [Println ''index handler'']
      = [Raw ''index handler'']"
    and h5: "first_panic (wroteHeader (sinks init_state 0)) [Println ''index handler''] = None"
    by (simp_all add: own_lines_def first_panic_def quiet_def)
  from serve_logs_one_line [OF h1 h2, of "[Println ''index handler'']" 0] show ?thesis
    using h1 h2 h3 h4 h5 by auto
qed

text \<open>
  C1, as stated, fails for a handler that panics: the one line then emitted holds
  \<open>event\<close> and \<open>message\<close> only.
\<close>

theorem panic_line_lacks_request_fields:
  "log_out (snd (serve [Panic ''boom''] 0 get_root init_state)) =
     [Json [(''event'', VStr ''panic''), (''message'', VStr ''boom goroutine 1 [running]'')]] \<and>
   \<not> has_fields (seed_keys @ [''code'', ''tts_ns''])
       (Json [(''event'', VStr ''panic''), (''message'', VStr ''boom goroutine 1 [running]'')])"
  by (simp add: run_defs logAsString.simps get_root_def init_state_def Let_def
      has_fields_def field_def seed_keys_def)

subsection \<open>The logged status code\<close>

text \<open>
  C4, as amended. When the wrapped handler has returned, the \<open>code\<close> field of the request
  line, and \<^verbatim>\<open>Code()\<close> of the recorder that was used (back at the head of the pool), are
  the last status that the handler passed to a \<^verbatim>\<open>WriteHeader\<close> call that returned, that
  is, one that the sink did not reject with a panic, and 200 when there is none. A handler
  that calls \<^verbatim>\<open>WriteHeader(404)\<close> and then writes body bytes is logged with code 404.
\<close>

theorem logged_code_is_last_status:
  assumes "ctx_log r = None" and "pool_ok s"
    and "first_panic (wroteHeader (sinks s w)) ops = None"
  shows "fst (mwLog (run_ops ops) w r s) = Ok () \<and>
         (\<exists>line. log_out (snd (mwLog (run_ops ops) w r s)) =
              log_out s @ own_lines (wroteHeader (sinks s w)) ops @ [line] \<and>
            field line ''code'' =
              Some (VInt (last (200 # status_calls (wroteHeader (sinks s w)) ops)))) \<and>
         logWriter_Code (hd (writers_items (snd (mwLog (run_ops ops) w r s))))
             (snd (mwLog (run_ops ops) w r s)) =
           last (200 # status_calls (wroteHeader (sinks s w)) ops)"
proof -
  define hw where "hw = wroteHeader (sinks s w)"
  from mwLog_None [OF assms(1,2), of ops w] assms(3)
  obtain s' where run: "mwLog (run_ops ops) w r s = (Ok (), s')"
    and out: "log_out s' = log_out s @ own_lines hw ops @
                [Json (seeded r s @
                   [(''code'', VInt (last (200 # status_calls hw ops))),
                    (''tts_ns'', VInt (min (now s' - now s) maxDuration div 1000000))])]"
    and cd: "logWriter_Code (hd (writers_items s')) s' = last (200 # status_calls hw ops)"
    unfolding hw_def by auto
  have "field (Json (seeded r s @
                   [(''code'', VInt (last (200 # status_calls hw ops))),
                    (''tts_ns'', VInt (min (now s' - now s) maxDuration div 1000000))])) ''code''
        = Some (VInt (last (200 # status_calls hw ops)))"
    by (simp add: field_def seeded_def)
  then show ?thesis using run out cd by (simp add: hw_def)
qed

theorem logged_code_is_last_status_witness:
  "ctx_log get_root = None \<and> pool_ok init_state \<and>
   first_panic (wroteHeader (sinks init_state 0)) [WriteHeader 404, Write [110, 111]] = None \<and>
   fst (mwLog (run_ops [WriteHeader 404, Write [110, 111]]) 0 get_root init_state) = Ok () \<and>
   (\<exists>line. log_out (snd (mwLog (run_ops [WriteHeader 404, Write [110, 111]]) 0 get_root init_state))
        = [line] \<and>
      field line ''code'' = Some (VInt 404))"
proof -
  have h0: "wroteHeader (sinks init_state 0) = False"
    by (simp add: init_state_def wroteHeader_def)
  have h1: "ctx_log get_root = None"
    by (simp add: get_root_def)
  have h2: "pool_ok init_state"
    by (simp add: pool_ok_def init_state_def)
  have h3: "first_panic (wroteHeader (sinks init_state 0)) [WriteHeader 404, Write [110, 111]]
      = None"
    by (simp add: h0 first_panic_def quiet_def sink_rejects_def)
  have h4: "log_out init_state = []"
    by (simp add: init_state_def)
  have h5: "own_lines (wroteHeader (sinks init_state 0)) [WriteHeader 404, Write [110, 111]] = []"
    and h6: "status_calls (wroteHeader (sinks init_state 0)) [WriteHeader 404, Write [110, 111]]
      = [404]"
    by (simp_all add: h0 own_lines_def status_calls_def quiet_def sink_rejects_def)
  from logged_code_is_last_status [OF h1 h2 h3] show ?thesis
    using h1 h2 h3 h4 h5 h6 by auto
qed

text \<open>
  C4, as stated, fails for a handler that passes a status the sink rejects and recovers
  from the panic: it returns, the last value it passed to \<^verbatim>\<open>WriteHeader\<close> is 0, and the
  recorder and the request line hold 200.
\<close>

theorem rejected_status_is_not_logged:
  "fst (mwLog (run_ops [Recover [WriteHeader 0]]) 0 get_root init_state) = Ok () \<and>
   sinks (snd (mwLog (run_ops [Recover [WriteHeader 0]]) 0 get_root init_state)) 0
     = [SinkWriteHeader 0] \<and>
   logWriter_Code 0 (snd (mwLog (run_ops [Recover [WriteHeader 0]]) 0 get_root init_state)) = 200 \<and>
   log_out (snd (mwLog (run_ops [Recover [WriteHeader 0]]) 0 get_root init_state)) =
     [Json [(''request_time'', VInt 1700000000), (''request_id'', VStr ''0000beef''),
            (''event'', VStr ''request''), (''remote_addr'', VStr ''127.0.0.1:5000''),
            (''method'', VStr ''GET''), (''url'', VStr ''/''), (''content_length'', VInt 0),
            (''code'', VInt 200), (''tts_ns'', VInt 0)]]"
  by (simp add: run_defs logAsString.simps get_root_def init_state_def Let_def sprintf_beef)

subsection \<open>The logged time to serve\<close>

text \<open>
  C5. When the wrapped handler has returned, the \<open>tts_ns\<close> field of the request line is
  the time elapsed on the clock between the entry into \<^verbatim>\<open>mwLog\<close> and the emission (a
  nonnegative number of nanoseconds, which Go caps at the largest \<^verbatim>\<open>int64\<close>) divided by
  one million and rounded down: whole milliseconds.
\<close>

theorem tts_ns_is_whole_milliseconds:
  assumes "ctx_log r = None" and "pool_ok s"
    and "first_panic (wroteHeader (sinks s w)) ops = None"
  shows "fst (mwLog (run_ops ops) w r s) = Ok () \<and>
         0 \<le> now (snd (mwLog (run_ops ops) w r s)) - now s \<and>
         (\<exists>line. log_out (snd (mwLog (run_ops ops) w r s)) =
              log_out s @ own_lines (wroteHeader (sinks s w)) ops @ [line] \<and>
           field line ''tts_ns'' =
             Some (VInt (min (now (snd (mwLog (run_ops ops) w r s)) - now s) maxDuration
                          div 1000000)))"
proof -
  define hw where "hw = wroteHeader (sinks s w)"
  from mwLog_None [OF assms(1,2), of ops w] assms(3)
  obtain s' where run: "mwLog (run_ops ops) w r s = (Ok (), s')"
    and out: "log_out s' = log_out s @ own_lines hw ops @
                [Json (seeded r s @
                   [(''code'', VInt (last (200 # status_calls hw ops))),
                    (''tts_ns'', VInt (min (now s' - now s) maxDuration div 1000000))])]"
    and later: "now s \<le> now s'"
    unfolding hw_def by auto
  have "field (Json (seeded r s @
                   [(''code'', VInt (last (200 # status_calls hw ops))),
                    (''tts_ns'', VInt (min (now s' - now s) maxDuration div 1000000))])) ''tts_ns''
        = Some (VInt (min (now s' - now s) maxDuration div 1000000))"
    by (simp add: field_def seeded_def)
  then show ?thesis using run out later by (simp add: hw_def)
qed

theorem tts_ns_is_whole_milliseconds_witness:
  "ctx_log get_root = None \<and> pool_ok init_state \<and>
   first_panic (wroteHeader (sinks init_state 0)) [Elapse 2999999] = None \<and>
   fst (mwLog (run_ops [Elapse 2999999]) 0 get_root init_state) = Ok () \<and>
   now (snd (mwLog (run_ops [Elapse 2999999]) 0 get_root init_state)) - now init_state = 2999999 \<and>
   (\<exists>line. log_out (snd (mwLog (run_ops [Elapse 2999999]) 0 get_root init_state)) = [line] \<and>
      field line ''tts_ns'' = Some (VInt 2))"
proof -
  have h1: "ctx_log get_root = None"
    by (simp add: get_root_def)
  have h2: "pool_ok init_state"
    by (simp add: pool_ok_def init_state_def)
  have h3: "first_panic (wroteHeader (sinks init_state 0)) [Elapse 2999999] = None"
    by (simp add: first_panic_def quiet_def)
  have h4: "log_out init_state = []"
    by (simp add: init_state_def)
  have h5: "own_lines (wroteHeader (sinks init_state 0)) [Elapse 2999999] = []"
    by (simp add: own_lines_def quiet_def)
  have el: "now (snd (mwLog (run_ops [Elapse 2999999]) 0 get_root init_state)) - now init_state
      = 2999999"
    by (simp add: run_defs logAsString.simps get_root_def init_state_def Let_def)
  have "min (2999999::int) maxDuration div 1000000 = 2"
    by (simp add: maxDuration_def)
  with tts_ns_is_whole_milliseconds [OF h1 h2 h3] show ?thesis
    using h1 h2 h3 h4 h5 el by auto
qed

subsection \<open>Release of the recorder\<close>

text \<open>
  C8. In every run of \<^verbatim>\<open>mwLog\<close> from a state where the pool can hand out a
  recorder, whatever the request and whatever the handler does, also when it panics, the
  recorder that was acquired is put back: when \<^verbatim>\<open>mwLog\<close> is left, the pool holds that
  recorder in front of what the acquisition had left in it.
\<close>

theorem recorder_always_released:
  assumes "pool_ok s"
  shows "\<exists>start logData s1 lw s2.
           mwLog_seed r s = (Ok (start, logData), s1) \<and>
           mwLog_acquire w s1 = (Ok lw, s2) \<and>
           writers_items (snd (mwLog (run_ops ops) w r s)) = lw # writers_items s2"
proof -
  from seed_any [of r s]
  obtain start logData s1 where seed: "mwLog_seed r s = (Ok (start, logData), s1)"
    and p1: "same_pool s s1"
    by blast
  have "pool_ok s1"
    using assms p1 by (simp add: pool_ok_def same_pool_def)
  from acquire_pool_ok [OF this, of w]
  obtain lw s2 where acq: "mwLog_acquire w s1 = (Ok lw, s2)"
    by blast
  obtain res s3 where run: "run_ops ops lw r s2 = (res, s3)"
    by (cases "run_ops ops lw r s2")
  have p3: "writers_items s3 = writers_items s2"
    using run_same_pool(2) [of s2 ops lw r] run by (simp add: same_pool_def)
  have "writers_items (snd (mwLog (run_ops ops) w r s)) = lw # writers_items s2"
  proof (cases res)
    case (Panicking p)
    then show ?thesis
      using seed acq run p3 by (simp add: mwLog_def writers_Put_def)
  next
    case (Ok u)
    obtain res' s4 where fin: "mwLog_finish start logData lw s3 = (res', s4)"
      by (cases "mwLog_finish start logData lw s3")
    have p4: "writers_items s4 = writers_items s3"
      using finish_same_pool [of s3 start logData lw] fin by (simp add: same_pool_def)
    show ?thesis
      using seed acq run Ok fin p3 p4
      by (cases res') (simp_all add: mwLog_def writers_Put_def)
  qed
  with seed acq show ?thesis by blast
qed

theorem recorder_always_released_witness:
  "pool_ok init_state \<and>
   fst (mwLog (run_ops [WriteHeader 500, Panic ''boom'']) 0 get_root init_state) = Panicking ''boom'' \<and>
   (\<exists>start logData s1 lw s2.
      mwLog_seed get_root init_state = (Ok (start, logData), s1) \<and>
      mwLog_acquire 0 s1 = (Ok lw, s2) \<and>
      writers_items (snd (mwLog (run_ops [WriteHeader 500, Panic ''boom'']) 0 get_root init_state))
        = lw # writers_items s2)"
proof -
  have h1: "pool_ok init_state"
    by (simp add: pool_ok_def init_state_def)
  have h2: "fst (mwLog (run_ops [WriteHeader 500, Panic ''boom'']) 0 get_root init_state)
      = Panicking ''boom''"
    by (simp add: run_defs get_root_def init_state_def Let_def)
  from recorder_always_released [OF h1, of get_root 0 "[WriteHeader 500, Panic ''boom'']"]
  show ?thesis using h1 h2 by blast
qed

subsection \<open>Fields added by a handler\<close>

text \<open>
  C2 on the code: a handler that calls \<^verbatim>\<open>logDataAdd\<close> and \<^verbatim>\<open>logDataReplace\<close>
  on a request of the server. The request line holds the seven seed fields, \<open>code\<close> and
  \<open>tts_ns\<close>, and neither \<open>user\<close> nor \<open>tenant\<close>: the map that \<^verbatim>\<open>mwLog\<close>
  fills is never put into the context of the request, and the request that
  \<^verbatim>\<open>logDataAdd\<close> builds is dropped.
\<close>

theorem handler_additions_not_logged:
  "log_out (snd (serve [LogDataAdd ''user'' (VStr ''bob''), LogDataReplace [(''tenant'', VStr ''acme'')]]
                   0 get_root init_state)) =
     [Json [(''request_time'', VInt 1700000000), (''request_id'', VStr ''0000beef''),
            (''event'', VStr ''request''), (''remote_addr'', VStr ''127.0.0.1:5000''),
            (''method'', VStr ''GET''), (''url'', VStr ''/''), (''content_length'', VInt 0),
            (''code'', VInt 200), (''tts_ns'', VInt 0)]]"
  by (simp add: run_defs logAsString.simps get_root_def init_state_def Let_def
      sprintf_beef)

text \<open>When the context of the request does hold a log map, \<^verbatim>\<open>mwLog\<close> and
  \<^verbatim>\<open>logDataAdd\<close> share it, and the addition is logged.\<close>

lemma addition_to_shared_map_is_logged:
  "field (last (log_out (snd (serve [LogDataAdd ''user'' (VStr ''bob'')] 0
        (get_root\<lparr>ctx_log := Some 0\<rparr>) (init_state\<lparr>maps_next := 1\<rparr>))))) ''user''
     = Some (VStr ''bob'')"
  by (simp add: run_defs logAsString.simps get_root_def init_state_def Let_def field_def)

subsection \<open>Failure to serialise\<close>

text \<open>
  C7 on the code: \<^verbatim>\<open>logAsString\<close> on a map with a value that cannot be encoded.
  The fallback \<^verbatim>\<open>logError(nil, err, ...)\<close> starts with \<^verbatim>\<open>logDataGet(nil)\<close>, which
  dereferences the nil request: the call panics, the state is unchanged, and no record
  reaches the log.
\<close>

theorem marshal_failure_panics_without_record:
  "logAsString 0 bad_state = (Panicking nil_deref, bad_state) \<and> log_out bad_state = []"
  by (simp add: logAsString.simps logError.simps logDataGet_def json_Marshal_def
      bad_state_def init_state_def)

text \<open>
  C10 on the code: \<^verbatim>\<open>mwLog\<close> around a handler that does nothing, for a request whose
  log map holds a value that cannot be encoded. \<^verbatim>\<open>logAsString\<close> does not return the
  empty string: the call on line 142 panics, and the log holds neither an empty line nor an
  error record.
\<close>

theorem marshal_failure_emits_no_line:
  "fst (mwLog (run_ops []) 0 bad_request bad_state) = Panicking nil_deref \<and>
   log_out (snd (mwLog (run_ops []) 0 bad_request bad_state)) = []"
  by (simp add: run_defs logAsString.simps logError.simps bad_request_def bad_state_def
      get_root_def init_state_def Let_def)

end
